theory Spec2Isabelle
  imports Complex_Main "HOL-Library.Char_ord" "HOL-Library.List_Lexorder"
begin

section \<open>JavaScript values used by the chess move calculator\<close>

text \<open>
  Strings are lists of code units. The model covers ASCII text: \<open>toUpperCase\<close> maps the
  letters a-z to A-Z and leaves every other code unit as it is. Relational comparison of
  strings (\<open><=\<close>, \<open>>=\<close>) is JavaScript's: lexicographic on code units, a proper prefix
  being smaller.
\<close>

definition toUpperCase_char :: "char \<Rightarrow> char" where
  "toUpperCase_char c =
     (let n = (of_char c :: nat) in if 97 \<le> n \<and> n \<le> 122 then char_of (n - 32) else c)"

definition toUpperCase :: "string \<Rightarrow> string" where
  "toUpperCase s = map toUpperCase_char s"

text \<open>
  On ASCII text this is \<open>String.prototype.toUpperCase\<close> exactly. Outside ASCII the
  JavaScript function can change a character that is left alone here, and can return
  several characters for one (the sharp s gives SS, the ligature U+FB00 gives FF); the
  theorems that speak of upper-cased text other than the letters A-H and a-h are therefore
  stated for ASCII text.
\<close>

definition isASCII :: "string \<Rightarrow> bool" where
  "isASCII s = list_all (\<lambda>c. (of_char c :: nat) < 128) s"

fun string_le :: "string \<Rightarrow> string \<Rightarrow> bool" where
  "string_le [] ys = True"
| "string_le (x # xs) [] = False"
| "string_le (x # xs) (y # ys) =
     (if (of_char x :: nat) < of_char y then True
      else if (of_char y :: nat) < of_char x then False
      else string_le xs ys)"

definition string_ge :: "string \<Rightarrow> string \<Rightarrow> bool" where
  "string_ge a b = string_le b a"

text \<open>\<open>s.charAt(i)\<close>: the one-character string at index \<open>i\<close>, the empty string out of range.\<close>

definition charAt :: "string \<Rightarrow> nat \<Rightarrow> string" where
  "charAt s i = (if i < length s then [s ! i] else [])"

text \<open>
  A JavaScript number: a finite value, \<open>NaN\<close> or an infinity. Finite values are kept as
  rationals; rounding plays no part in what follows, where every finite number is either
  compared with 1 and 8 or is a small integer.
\<close>

datatype number = Num rat | NaN | PosInfinity | NegInfinity

definition isInteger :: "number \<Rightarrow> bool" where
  "isInteger n = (case n of Num q \<Rightarrow> of_int \<lfloor>q\<rfloor> = q | _ \<Rightarrow> False)"

text \<open>\<open>parseInt(s, 10)\<close>: leading white space, an optional sign, then the longest run of
  decimal digits; \<open>NaN\<close> when there is no digit.\<close>

definition isWhiteSpace :: "char \<Rightarrow> bool" where
  "isWhiteSpace c = ((of_char c :: nat) \<in> {9, 10, 11, 12, 13, 32})"

definition isDigit :: "char \<Rightarrow> bool" where
  "isDigit c = (48 \<le> (of_char c :: nat) \<and> (of_char c :: nat) \<le> 57)"

definition digitsValue :: "string \<Rightarrow> int" where
  "digitsValue ds = foldl (\<lambda>acc c. 10 * acc + (int (of_char c) - 48)) 0 ds"

definition parseInt :: "string \<Rightarrow> number" where
  "parseInt s =
     (let t = dropWhile isWhiteSpace s;
          neg = (case t of [] \<Rightarrow> False | c # _ \<Rightarrow> c = CHR ''-'');
          u = (case t of [] \<Rightarrow> [] | c # r \<Rightarrow> if c = CHR ''-'' \<or> c = CHR ''+'' then r else t);
          ds = takeWhile isDigit u
      in if ds = [] then NaN
         else Num (of_int (if neg then - digitsValue ds else digitsValue ds)))"

text \<open>Decimal rendering of an integer, as a template literal does for an integral number.\<close>

fun string_of_nat :: "nat \<Rightarrow> string" where
  "string_of_nat n =
     (if n < 10 then [char_of (48 + n)]
      else string_of_nat (n div 10) @ [char_of (48 + n mod 10)])"

definition string_of_int :: "int \<Rightarrow> string" where
  "string_of_int i = (if i < 0 then CHR ''-'' # string_of_nat (nat (- i)) else string_of_nat (nat i))"

section \<open>Errors\<close>

text \<open>
  Every failure of the program is \<open>throw new Error(message)\<close>. An error value stands for
  its message, one constructor for each message template of the source, carrying the
  values the template interpolates:
  \<^item> \<open>InvalidFile f\<close>: "Invalid file: f. Must be A-H."
  \<^item> \<open>InvalidFileCode n\<close>: the same message for a one-character file whose code unit
    \<open>n\<close> is above 255 (such a character is not a \<open>char\<close>)
  \<^item> \<open>InvalidRank r\<close>: "Invalid rank: r. Must be 1-8."
  \<^item> \<open>InvalidNotation s\<close>: "Invalid notation: s. Expected format like 'A1' or 'H8'."
  \<^item> \<open>NoMovementStrategy t\<close>: "No movement strategy found for piece type: t"
  \<^item> \<open>FailedToCalculateMoves e\<close>: "Failed to calculate moves: " followed by the message
    of \<open>e\<close>
\<close>

datatype error =
    InvalidFile string
  | InvalidFileCode int
  | InvalidRank number
  | InvalidNotation string
  | NoMovementStrategy string
  | FailedToCalculateMoves error

section \<open>Position\<close>

text \<open>
  The class \<open>Position\<close> has two private read-only fields, set only by the constructor.
  The constructor admits a rank only if \<open>Number.isInteger\<close> holds of it, so the field is
  an integer here. The field \<open>_file\<close> is \<open>file'\<close>.
\<close>

record Position =
  file' :: string
  rank :: int

definition isValidFile :: "string \<Rightarrow> bool" where
  "isValidFile f = (let upperFile = toUpperCase f in string_ge upperFile ''A'' \<and> string_le upperFile ''H'')"

definition isValidRank :: "number \<Rightarrow> bool" where
  "isValidRank r = (isInteger r \<and> (case r of Num q \<Rightarrow> 1 \<le> q \<and> q \<le> 8 | _ \<Rightarrow> False))"

definition integral :: "number \<Rightarrow> int" where
  "integral r = (case r of Num q \<Rightarrow> \<lfloor>q\<rfloor> | _ \<Rightarrow> 0)"

text \<open>\<open>new Position(file, rank)\<close>: \<open>validateFile\<close>, then \<open>validateRank\<close>, then the two
  assignments.\<close>

definition Position_new :: "string \<Rightarrow> number \<Rightarrow> error + Position" where
  "Position_new f r =
     (if \<not> isValidFile f then Inl (InvalidFile f)
      else if \<not> isValidRank r then Inl (InvalidRank r)
      else Inr \<lparr>file' = toUpperCase f, rank = integral r\<rparr>)"

definition fromNotation :: "string \<Rightarrow> error + Position" where
  "fromNotation notation =
     (if notation = [] \<or> length notation \<noteq> 2 then Inl (InvalidNotation notation)
      else Position_new (toUpperCase (charAt notation 0)) (parseInt (charAt notation 1)))"

text \<open>
  \<open>fromCoordinates(fileIndex, rank)\<close> builds the file with \<open>String.fromCharCode(65 +
  fileIndex)\<close>, which takes its argument modulo \<open>2^16\<close>. The model is exact where \<open>65 +
  fileIndex\<close> is a code unit from 0 to 255, which covers every call that \<open>offset\<close> makes
  (indexes 0 to 7). A code unit above 255 is not a \<open>char\<close>; it is taken to be its own upper
  case, hence greater than "H" and rejected as a file, which is not so for the few
  characters whose upper case begins with a letter A-H (U+FB00 gives FF). The sum is the
  integer sum, which is the sum of doubles below \<open>2^53\<close>.
\<close>

definition fromCoordinates :: "int \<Rightarrow> number \<Rightarrow> error + Position" where
  "fromCoordinates fileIndex r =
     (let code = (65 + fileIndex) mod 65536
      in if code < 256 then Position_new [char_of code] r else Inl (InvalidFileCode code))"

text \<open>\<open>fileIndex\<close> is \<open>charCodeAt(0) - 65\<close>; of an empty file it is \<open>NaN\<close>, here \<open>None\<close>.\<close>

definition fileIndex :: "Position \<Rightarrow> int option" where
  "fileIndex p = (case file' p of [] \<Rightarrow> None | c # _ \<Rightarrow> Some (int (of_char c) - 65))"

definition toNotation :: "Position \<Rightarrow> string" where
  "toNotation p = file' p @ string_of_int (rank p)"

definition isValid :: "Position \<Rightarrow> bool" where
  "isValid p = (isValidFile (file' p) \<and> isValidRank (Num (of_int (rank p))))"

definition equals :: "Position \<Rightarrow> Position \<Rightarrow> bool" where
  "equals p other = (file' p = file' other \<and> rank p = rank other)"

text \<open>
  \<open>offset(fileOffset, rankOffset)\<close> with integral offsets. The result is \<open>Inr None\<close> for
  \<open>null\<close>, \<open>Inr (Some q)\<close> for a new position and \<open>Inl e\<close> when \<open>fromCoordinates\<close> throws.
  With a \<open>NaN\<close> file index both comparisons of the index are false, and
  \<open>String.fromCharCode(NaN)\<close> is the character with code 0.
\<close>

definition offset :: "Position \<Rightarrow> int \<Rightarrow> int \<Rightarrow> error + Position option" where
  "offset p fileOffset rankOffset =
     (let newRank = rank p + rankOffset in
      case fileIndex p of
        None \<Rightarrow>
          if newRank < 1 \<or> newRank > 8 then Inr None
          else map_sum id Some (Position_new [char_of (0 :: nat)] (Num (of_int newRank)))
      | Some i \<Rightarrow>
          let newFileIndex = i + fileOffset in
          if newFileIndex < 0 \<or> newFileIndex > 7 \<or> newRank < 1 \<or> newRank > 8 then Inr None
          else map_sum id Some (fromCoordinates newFileIndex (Num (of_int newRank))))"

text \<open>The position that \<open>fromCoordinates\<close> returns for a file index \<open>x\<close> in 0..7 and a rank
  \<open>y\<close> in 1..8 (lemma \<open>fromCoordinates_board\<close> below).\<close>

definition boardSquare :: "int \<Rightarrow> int \<Rightarrow> Position" where
  "boardSquare x y = \<lparr>file' = [char_of (65 + x)], rank = y\<rparr>"

text \<open>The bounds that \<open>offset\<close> tests: a file index in 0..7 and a rank in 1..8.\<close>

definition onBoard :: "int \<Rightarrow> int \<Rightarrow> bool" where
  "onBoard x y = (0 \<le> x \<and> x \<le> 7 \<and> 1 \<le> y \<and> y \<le> 8)"

section \<open>Movement strategies\<close>

text \<open>
  \<open>generateMovesInDirection\<close> is a \<open>while\<close> loop over \<open>moves\<close>, \<open>steps\<close> and
  \<open>currentPos\<close>. Without \<open>maxSteps\<close> (here \<open>None\<close>) only \<open>offset\<close> returning \<open>null\<close> ends
  it, so the loop is a partial function: \<open>None\<close> is a loop that runs forever, \<open>Some (Inl
  e)\<close> an error thrown by \<open>offset\<close>, \<open>Some (Inr ms)\<close> the returned array.
\<close>

partial_function (option) generateMovesInDirection_loop ::
  "int \<Rightarrow> int \<Rightarrow> int option \<Rightarrow> Position list \<Rightarrow> int \<Rightarrow> Position \<Rightarrow> (error + Position list) option"
where
  "generateMovesInDirection_loop fileDirection rankDirection maxSteps moves steps currentPos =
     (if maxSteps = None \<or> steps < the maxSteps then
        (case offset currentPos fileDirection rankDirection of
           Inl e \<Rightarrow> Some (Inl e)
         | Inr None \<Rightarrow> Some (Inr moves)
         | Inr (Some nextPos) \<Rightarrow>
             generateMovesInDirection_loop fileDirection rankDirection maxSteps
               (moves @ [nextPos]) (steps + 1) nextPos)
      else Some (Inr moves))"

declare generateMovesInDirection_loop.simps [code]

definition generateMovesInDirection ::
  "Position \<Rightarrow> int \<Rightarrow> int \<Rightarrow> int option \<Rightarrow> (error + Position list) option"
where
  "generateMovesInDirection position fileDirection rankDirection maxSteps =
     generateMovesInDirection_loop fileDirection rankDirection maxSteps [] 0 position"

definition directions :: "(int \<times> int) list" where
  "directions = [(-1, -1), (-1, 0), (-1, 1), (0, -1), (0, 1), (1, -1), (1, 0), (1, 1)]"

text \<open>The \<open>for\<close> loop of \<open>generateMovesInAllDirections\<close> over the remaining directions,
  with \<open>allMoves\<close> as collected so far.\<close>

fun generateMovesInAllDirections_loop ::
  "Position \<Rightarrow> int option \<Rightarrow> (int \<times> int) list \<Rightarrow> Position list \<Rightarrow> (error + Position list) option"
where
  "generateMovesInAllDirections_loop position maxSteps [] allMoves = Some (Inr allMoves)"
| "generateMovesInAllDirections_loop position maxSteps ((fileDir, rankDir) # ds) allMoves =
     (case generateMovesInDirection position fileDir rankDir maxSteps of
        None \<Rightarrow> None
      | Some (Inl e) \<Rightarrow> Some (Inl e)
      | Some (Inr movesInDirection) \<Rightarrow>
          generateMovesInAllDirections_loop position maxSteps ds (allMoves @ movesInDirection))"

definition generateMovesInAllDirections ::
  "Position \<Rightarrow> int option \<Rightarrow> (error + Position list) option"
where
  "generateMovesInAllDirections position maxSteps =
     generateMovesInAllDirections_loop position maxSteps directions []"

text \<open>The three strategy classes and their method \<open>calculateValidMoves\<close>.\<close>

datatype MovementStrategy = PawnMovementStrategy | KingMovementStrategy | QueenMovementStrategy

definition Pawn_calculateValidMoves :: "Position \<Rightarrow> error + Position list" where
  "Pawn_calculateValidMoves position =
     (case offset position 0 1 of
        Inl e \<Rightarrow> Inl e
      | Inr None \<Rightarrow> Inr []
      | Inr (Some forwardMove) \<Rightarrow> Inr [forwardMove])"

definition King_calculateValidMoves :: "Position \<Rightarrow> (error + Position list) option" where
  "King_calculateValidMoves position = generateMovesInAllDirections position (Some 1)"

definition Queen_calculateValidMoves :: "Position \<Rightarrow> (error + Position list) option" where
  "Queen_calculateValidMoves position = generateMovesInAllDirections position None"

fun strategy_calculateValidMoves ::
  "MovementStrategy \<Rightarrow> Position \<Rightarrow> (error + Position list) option"
where
  "strategy_calculateValidMoves PawnMovementStrategy position = Some (Pawn_calculateValidMoves position)"
| "strategy_calculateValidMoves KingMovementStrategy position = King_calculateValidMoves position"
| "strategy_calculateValidMoves QueenMovementStrategy position = Queen_calculateValidMoves position"

section \<open>Piece types and the strategy factory\<close>

text \<open>
  \<open>PieceType\<close> is a string enum: its members are the strings below, and at run time
  \<open>Map.get\<close> is handed whatever string the caller passes.
\<close>

type_synonym PieceType = string

definition PAWN :: PieceType where "PAWN = ''Pawn''"
definition KING :: PieceType where "KING = ''King''"
definition QUEEN :: PieceType where "QUEEN = ''Queen''"

definition strategyMap :: "(PieceType \<times> MovementStrategy) list" where
  "strategyMap =
     [(PAWN, PawnMovementStrategy), (KING, KingMovementStrategy), (QUEEN, QueenMovementStrategy)]"

definition createStrategy :: "PieceType \<Rightarrow> error + MovementStrategy" where
  "createStrategy pieceType =
     (case map_of strategyMap pieceType of
        None \<Rightarrow> Inl (NoMovementStrategy pieceType)
      | Some strategyCreator \<Rightarrow> Inr strategyCreator)"

definition hasStrategy :: "PieceType \<Rightarrow> bool" where
  "hasStrategy pieceType = (map_of strategyMap pieceType \<noteq> None)"

definition getSupportedPieceTypes :: "PieceType list" where
  "getSupportedPieceTypes = map fst strategyMap"

section \<open>PositionSorter\<close>

text \<open>
  \<open>localeCompare\<close> on files, modelled as comparison by code units. On the single letters
  A-H, which are the files of all squares that the rules return, collation order is
  code-unit order; on longer files the two orders can differ. The result is negative, zero
  or positive.
\<close>

fun localeCompare :: "string \<Rightarrow> string \<Rightarrow> int" where
  "localeCompare [] [] = 0"
| "localeCompare [] (y # ys) = -1"
| "localeCompare (x # xs) [] = 1"
| "localeCompare (x # xs) (y # ys) =
     (if (of_char x :: nat) < of_char y then -1
      else if (of_char y :: nat) < of_char x then 1
      else localeCompare xs ys)"

text \<open>The comparator handed to \<open>Array.prototype.sort\<close>.\<close>

definition comparePositions :: "Position \<Rightarrow> Position \<Rightarrow> int" where
  "comparePositions a b =
     (let fileComparison = localeCompare (file' a) (file' b)
      in if fileComparison \<noteq> 0 then fileComparison else rank a - rank b)"

text \<open>
  \<open>Array.prototype.sort\<close> is a stable sort; under a comparator that is a total preorder
  every stable sort returns the same array. It is modelled by insertion sort.
\<close>

fun insertPosition :: "Position \<Rightarrow> Position list \<Rightarrow> Position list" where
  "insertPosition a [] = [a]"
| "insertPosition a (b # bs) =
     (if comparePositions a b \<le> 0 then a # b # bs else b # insertPosition a bs)"

definition sortPositions :: "Position list \<Rightarrow> Position list" where
  "sortPositions positions = foldr insertPosition positions []"

text \<open>\<open>array.findIndex(pred)\<close>: the first index whose element satisfies \<open>pred\<close>, or -1.\<close>

fun findIndex_from :: "('a \<Rightarrow> bool) \<Rightarrow> 'a list \<Rightarrow> int \<Rightarrow> int" where
  "findIndex_from pred [] i = -1"
| "findIndex_from pred (x # xs) i = (if pred x then i else findIndex_from pred xs (i + 1))"

definition findIndex :: "('a \<Rightarrow> bool) \<Rightarrow> 'a list \<Rightarrow> int" where
  "findIndex pred xs = findIndex_from pred xs 0"

definition uniquePositions :: "Position list \<Rightarrow> Position list" where
  "uniquePositions positions =
     map fst (filter (\<lambda>(position, index). findIndex (\<lambda>p. equals p position) positions = index)
                (zip positions (map int [0 ..< length positions])))"

definition sortAndDeduplicate :: "Position list \<Rightarrow> Position list" where
  "sortAndDeduplicate positions = sortPositions (uniquePositions positions)"


section \<open>ChessMovementService\<close>

text \<open>
  \<open>calculateValidMoves\<close> runs the three steps inside \<open>try\<close>; the \<open>catch\<close> block throws a
  new error whose message is "Failed to calculate moves: " followed by the message of the
  error caught. The rejected promise is \<open>Some (Inl e)\<close>, the fulfilled one \<open>Some (Inr
  ms)\<close>.
\<close>

definition calculateValidMoves :: "PieceType \<Rightarrow> Position \<Rightarrow> (error + Position list) option" where
  "calculateValidMoves pieceType position =
     (case createStrategy pieceType of
        Inl e \<Rightarrow> Some (Inl (FailedToCalculateMoves e))
      | Inr movementStrategy \<Rightarrow>
          (case strategy_calculateValidMoves movementStrategy position of
             None \<Rightarrow> None
           | Some (Inl e) \<Rightarrow> Some (Inl (FailedToCalculateMoves e))
           | Some (Inr validMoves) \<Rightarrow> Some (Inr (sortAndDeduplicate validMoves))))"


section \<open>Properties of the coordinate model\<close>

lemma of_char_toUpperCase_char:
  "(of_char (toUpperCase_char c) :: nat) =
     (if 97 \<le> (of_char c :: nat) \<and> (of_char c :: nat) \<le> 122 then of_char c - 32 else of_char c)"
  by (auto simp: toUpperCase_char_def Let_def)

lemma string_ge_A: "string_ge u ''A'' = (case u of [] \<Rightarrow> False | c # cs \<Rightarrow> 65 \<le> (of_char c :: nat))"
  by (cases u) (auto simp: string_ge_def)

lemma string_le_H:
  "string_le u ''H'' = (case u of [] \<Rightarrow> True | c # cs \<Rightarrow> (of_char c :: nat) < 72 \<or> ((of_char c :: nat) = 72 \<and> cs = []))"
  apply (cases u) apply simp
  subgoal for c cs by (cases cs) auto
  done

lemma isValidFile_iff:
  "isValidFile f = (case f of [] \<Rightarrow> False | c # cs \<Rightarrow>
      65 \<le> (of_char (toUpperCase_char c) :: nat) \<and>
      ((of_char (toUpperCase_char c) :: nat) < 72 \<or> ((of_char (toUpperCase_char c) :: nat) = 72 \<and> cs = [])))"
  by (cases f) (auto simp: isValidFile_def Let_def toUpperCase_def string_ge_A string_le_H)

lemma isValidRank_iff: "isValidRank r = (\<exists>i. r = Num (of_int i) \<and> 1 \<le> i \<and> i \<le> 8)"
  by (cases r) (auto simp: isValidRank_def isInteger_def)

lemma integral_of_int: "integral (Num (of_int i)) = i"
  by (simp add: integral_def)

lemma char_of_int_code: "0 \<le> k \<Longrightarrow> k < 256 \<Longrightarrow> (of_char (char_of (k::int)) :: nat) = nat k"
proof -
  assume a: "0 \<le> k" "k < 256"
  have "int (of_char (char_of k) :: nat) = (of_char (char_of k) :: int)" by (simp add: of_nat_of_char)
  also have "\<dots> = k mod 256" by simp
  finally show ?thesis using a by simp
qed


lemma of_char_mem_iff: "((of_char c :: nat) \<in> of_char ` S) = (c \<in> S)"
  by (rule inj_image_mem_iff) (rule inj_of_char)

lemma upper_letter_iff: "(65 \<le> (of_char c :: nat) \<and> (of_char c :: nat) \<le> 72) = (c \<in> set ''ABCDEFGH'')"
proof -
  have "(65 \<le> (of_char c :: nat) \<and> (of_char c :: nat) \<le> 72) = ((of_char c :: nat) \<in> {65,66,67,68,69,70,71,72})"
    by auto
  also have "{65,66,67,68,69,70,71,72} = (of_char ` set ''ABCDEFGH'' :: nat set)" by simp
  finally show ?thesis by (simp only: of_char_mem_iff)
qed

lemma lower_letter_iff: "(97 \<le> (of_char c :: nat) \<and> (of_char c :: nat) \<le> 104) = (c \<in> set ''abcdefgh'')"
proof -
  have "(97 \<le> (of_char c :: nat) \<and> (of_char c :: nat) \<le> 104) = ((of_char c :: nat) \<in> {97,98,99,100,101,102,103,104})"
    by auto
  also have "{97,98,99,100,101,102,103,104} = (of_char ` set ''abcdefgh'' :: nat set)" by simp
  finally show ?thesis by (simp only: of_char_mem_iff)
qed

lemma isValidFile_single:
  "isValidFile [c] = (c \<in> set ''ABCDEFGH'' \<or> c \<in> set ''abcdefgh'')"
  unfolding upper_letter_iff [symmetric] lower_letter_iff [symmetric]
  by (auto simp: isValidFile_iff of_char_toUpperCase_char)


lemma toUpperCase_char_upper: "c \<in> set ''ABCDEFGH'' \<Longrightarrow> toUpperCase_char c = c"
  by (auto simp: toUpperCase_char_def)

lemma string_of_int_digit: "0 \<le> r \<Longrightarrow> r < 10 \<Longrightarrow> string_of_int r = [char_of (48 + nat r)]"
  by (simp add: string_of_int_def)

lemma parseInt_digit: "0 \<le> r \<Longrightarrow> r < 10 \<Longrightarrow> parseInt [char_of (48 + nat r)] = Num (of_int r)"
proof -
  assume a: "0 \<le> r" "r < 10"
  let ?d = "char_of (48 + nat r) :: char"
  from a have oc: "(of_char ?d :: nat) = 48 + nat r" by simp
  have ws: "\<not> isWhiteSpace ?d" using a by (simp add: isWhiteSpace_def oc)
  have dg: "isDigit ?d" using a by (simp add: isDigit_def oc)
  have m: "?d \<noteq> CHR ''-''" "?d \<noteq> CHR ''+''"
    using oc a by (auto dest!: arg_cong [where f = "of_char :: char \<Rightarrow> nat"])
  show ?thesis using a
    by (simp add: parseInt_def Let_def ws dg m digitsValue_def oc)
qed

lemma Position_new_valid:
  "isValidFile f \<Longrightarrow> 1 \<le> i \<Longrightarrow> i \<le> 8 \<Longrightarrow>
     Position_new f (Num (of_int i)) = Inr \<lparr>file' = toUpperCase f, rank = i\<rparr>"
  by (auto simp: Position_new_def isValidRank_iff integral_of_int)

text \<open>
  Claim C4. For every square with a file among A-H and a rank from 1 to 8, parsing the
  notation that \<open>toNotation\<close> prints succeeds and gives the square back.
\<close>

theorem notation_round_trip:
  assumes "c \<in> set ''ABCDEFGH''" and "1 \<le> r" and "r \<le> 8"
  shows "fromNotation (toNotation \<lparr>file' = [c], rank = r\<rparr>) = Inr \<lparr>file' = [c], rank = r\<rparr>"
proof -
  have n: "toNotation \<lparr>file' = [c], rank = r\<rparr> = [c, char_of (48 + nat r)]"
    using assms by (simp add: toNotation_def string_of_int_digit)
  have u: "toUpperCase [c] = [c]" using assms(1) by (simp add: toUpperCase_def toUpperCase_char_upper)
  have v: "isValidFile [c]" using assms(1) by (simp only: isValidFile_single) simp
  have "fromNotation [c, char_of (48 + nat r)] = Position_new [c] (Num (of_int r))"
    using assms by (simp add: fromNotation_def charAt_def u parseInt_digit)
  also have "\<dots> = Inr \<lparr>file' = [c], rank = r\<rparr>"
    using Position_new_valid [OF v assms(2,3)] by (simp add: u)
  finally show ?thesis by (simp only: n)
qed

theorem notation_round_trip_witness:
  "fromNotation (toNotation \<lparr>file' = ''E'', rank = 4\<rparr>) = Inr \<lparr>file' = ''E'', rank = 4\<rparr>"
  using notation_round_trip [of "CHR ''E''" 4] by simp



lemma of_char_boardSquare: "0 \<le> x \<Longrightarrow> x \<le> 7 \<Longrightarrow> (of_char (char_of (65 + x)) :: nat) = nat (65 + x)"
  by (rule char_of_int_code) auto

lemma fromCoordinates_board:
  assumes "0 \<le> x" "x \<le> 7" "1 \<le> y" "y \<le> 8"
  shows "fromCoordinates x (Num (of_int y)) = Inr (boardSquare x y)"
proof -
  let ?c = "char_of (65 + x) :: char"
  have oc: "(of_char ?c :: nat) = nat (65 + x)" using assms by (simp add: of_char_boardSquare)
  have up: "toUpperCase_char ?c = ?c" using assms by (auto simp: toUpperCase_char_def Let_def oc)
  have v: "isValidFile [?c]" using assms by (auto simp: isValidFile_iff up oc)
  have m: "(65 + x) mod 65536 = 65 + x" using assms by simp
  show ?thesis
    using assms Position_new_valid [OF v assms(3,4)]
    by (simp add: fromCoordinates_def Let_def m boardSquare_def toUpperCase_def up)
qed

lemma fileIndex_boardSquare: "0 \<le> x \<Longrightarrow> x \<le> 7 \<Longrightarrow> fileIndex (boardSquare x y) = Some x"
  by (simp add: fileIndex_def boardSquare_def of_char_boardSquare)

lemma rank_boardSquare: "rank (boardSquare x y) = y"
  by (simp add: boardSquare_def)

lemma offset_fileIndex:
  assumes "fileIndex p = Some x"
  shows "offset p df dr =
     (if x + df < 0 \<or> x + df > 7 \<or> rank p + dr < 1 \<or> rank p + dr > 8 then Inr None
      else Inr (Some (boardSquare (x + df) (rank p + dr))))"
  using assms by (auto simp: offset_def Let_def fromCoordinates_board simp del: of_int_add)

lemma constructed_fileIndex:
  assumes "Position_new f r = Inr p"
  shows "\<exists>x. fileIndex p = Some x \<and> 0 \<le> x \<and> x \<le> 7 \<and> 1 \<le> rank p \<and> rank p \<le> 8"
proof -
  from assms have v: "isValidFile f" and r: "isValidRank r"
    and p: "p = \<lparr>file' = toUpperCase f, rank = integral r\<rparr>"
    by (auto simp: Position_new_def split: if_splits)
  from v obtain c cs where f: "f = c # cs"
    and c: "65 \<le> (of_char (toUpperCase_char c) :: nat)" "(of_char (toUpperCase_char c) :: nat) \<le> 72"
    by (cases f) (auto simp: isValidFile_iff)
  from r obtain i where i: "r = Num (of_int i)" "1 \<le> i" "i \<le> 8" by (auto simp: isValidRank_iff)
  show ?thesis using c i by (simp add: p f fileIndex_def toUpperCase_def integral_of_int)
qed

lemma isValid_boardSquare: "0 \<le> x \<Longrightarrow> x \<le> 7 \<Longrightarrow> 1 \<le> y \<Longrightarrow> y \<le> 8 \<Longrightarrow> isValid (boardSquare x y)"
  by (auto simp: isValid_def boardSquare_def isValidFile_iff isValidRank_iff of_char_toUpperCase_char of_char_boardSquare)

text \<open>
  Claim C5. For every constructed position with file index \<open>x\<close> and all integers \<open>df\<close>,
  \<open>dr\<close>: \<open>offset\<close> returns \<open>null\<close> exactly when \<open>x + df\<close> leaves 0..7 or \<open>rank + dr\<close> leaves
  1..8, and otherwise the position with those coordinates; it never throws, and
  \<open>offset(0, 0)\<close> has the coordinates of the position itself. The position is a value: the
  result is computed from it and nothing is assigned to it.
\<close>

theorem offset_in_bounds_or_none:
  assumes "Position_new f r = Inr p"
  shows "\<exists>x. fileIndex p = Some x \<and>
     (offset p df dr =
        (if x + df < 0 \<or> 7 < x + df \<or> rank p + dr < 1 \<or> 8 < rank p + dr then Inr None
         else Inr (Some \<lparr>file' = [char_of (65 + (x + df))], rank = rank p + dr\<rparr>))) \<and>
     (\<forall>q. offset p df dr = Inr (Some q) \<longrightarrow>
        fileIndex q = Some (x + df) \<and> rank q = rank p + dr \<and> isValid q) \<and>
     (\<forall>e. offset p df dr \<noteq> Inl e) \<and>
     (\<exists>q. offset p 0 0 = Inr (Some q) \<and> fileIndex q = fileIndex p \<and> rank q = rank p)"
proof -
  from constructed_fileIndex [OF assms] obtain x where
    x: "fileIndex p = Some x" "0 \<le> x" "x \<le> 7" "1 \<le> rank p" "rank p \<le> 8" by blast
  have "offset p df dr =
        (if x + df < 0 \<or> 7 < x + df \<or> rank p + dr < 1 \<or> 8 < rank p + dr then Inr None
         else Inr (Some \<lparr>file' = [char_of (65 + (x + df))], rank = rank p + dr\<rparr>))"
    by (simp add: offset_fileIndex [OF x(1)] boardSquare_def)
  moreover have "\<forall>q. offset p df dr = Inr (Some q) \<longrightarrow>
        fileIndex q = Some (x + df) \<and> rank q = rank p + dr \<and> isValid q"
    by (auto simp: offset_fileIndex [OF x(1)] fileIndex_boardSquare rank_boardSquare isValid_boardSquare
             split: if_splits)
  moreover have "\<forall>e. offset p df dr \<noteq> Inl e"
    by (simp add: offset_fileIndex [OF x(1)])
  moreover have "\<exists>q. offset p 0 0 = Inr (Some q) \<and> fileIndex q = fileIndex p \<and> rank q = rank p"
    using x by (simp add: offset_fileIndex [OF x(1)] fileIndex_boardSquare rank_boardSquare)
  ultimately show ?thesis using x(1) by blast
qed


theorem offset_in_bounds_or_none_witness:
  "Position_new ''D'' (Num 5) = Inr \<lparr>file' = ''D'', rank = 5\<rparr> \<and>
   offset \<lparr>file' = ''D'', rank = 5\<rparr> 1 1 = Inr (Some \<lparr>file' = ''E'', rank = 6\<rparr>) \<and>
   offset \<lparr>file' = ''D'', rank = 5\<rparr> 5 0 = Inr None"
proof -
  have h: "Position_new ''D'' (Num 5) = Inr \<lparr>file' = ''D'', rank = 5\<rparr>" by code_simp
  have c: "[char_of (69 :: int)] = ''E''" by code_simp
  have "fileIndex \<lparr>file' = ''D'', rank = 5\<rparr> = Some 3" by (simp add: fileIndex_def)
  with offset_in_bounds_or_none [OF h, of 1 1] offset_in_bounds_or_none [OF h, of 5 0] c h
  show ?thesis by simp
qed

lemma Position_new_cases:
  "Position_new f r =
     (if \<not> isValidFile f then Inl (InvalidFile f)
      else if \<not> (\<exists>i. r = Num (of_int i) \<and> 1 \<le> i \<and> i \<le> 8) then Inl (InvalidRank r)
      else Inr \<lparr>file' = toUpperCase f, rank = integral r\<rparr>)"
  by (simp add: Position_new_def isValidRank_iff)

lemma isValidFile_short:
  "length f \<le> 1 \<Longrightarrow> isValidFile f =
     (f \<in> set [''A'', ''B'', ''C'', ''D'', ''E'', ''F'', ''G'', ''H'',
               ''a'', ''b'', ''c'', ''d'', ''e'', ''f'', ''g'', ''h''])"
proof (cases f)
  case Nil
  then show ?thesis by (simp add: isValidFile_iff)
next
  case (Cons c cs)
  assume "length f \<le> 1"
  with Cons have f: "f = [c]" by simp
  show ?thesis unfolding f isValidFile_single by auto
qed

lemma toUpperCase_letters:
  "map toUpperCase [''A'', ''B'', ''C'', ''D'', ''E'', ''F'', ''G'', ''H'',
               ''a'', ''b'', ''c'', ''d'', ''e'', ''f'', ''g'', ''h''] =
     [''A'', ''B'', ''C'', ''D'', ''E'', ''F'', ''G'', ''H'',
      ''A'', ''B'', ''C'', ''D'', ''E'', ''F'', ''G'', ''H'']"
  by code_simp

lemma toUpperCase_letter:
  "f \<in> set [''A'', ''B'', ''C'', ''D'', ''E'', ''F'', ''G'', ''H'',
               ''a'', ''b'', ''c'', ''d'', ''e'', ''f'', ''g'', ''h''] \<Longrightarrow>
   toUpperCase f \<in> set [''A'', ''B'', ''C'', ''D'', ''E'', ''F'', ''G'', ''H'']"
  using toUpperCase_letters by auto

text \<open>
  Claim C6, amended. For a file that is empty or one ASCII character: construction fails
  with the file error exactly when the file is not one of the letters A-H or a-h; it fails
  with the rank error exactly when the file is such a letter and the rank is not an
  integer from 1 to 8 (the file is validated first); it succeeds exactly when both are
  valid, and the position then stores the upper-cased file and lies on the board.
\<close>

theorem construct_validation:
  assumes "length f \<le> 1" and "isASCII f"
  shows "((Position_new f r = Inl (InvalidFile f)) =
            (f \<notin> set [''A'', ''B'', ''C'', ''D'', ''E'', ''F'', ''G'', ''H'',
                       ''a'', ''b'', ''c'', ''d'', ''e'', ''f'', ''g'', ''h''])) \<and>
         ((Position_new f r = Inl (InvalidRank r)) =
            (f \<in> set [''A'', ''B'', ''C'', ''D'', ''E'', ''F'', ''G'', ''H'',
                       ''a'', ''b'', ''c'', ''d'', ''e'', ''f'', ''g'', ''h''] \<and>
             \<not> (\<exists>i. r = Num (of_int i) \<and> 1 \<le> i \<and> i \<le> 8))) \<and>
         ((\<exists>p. Position_new f r = Inr p) =
            (f \<in> set [''A'', ''B'', ''C'', ''D'', ''E'', ''F'', ''G'', ''H'',
                       ''a'', ''b'', ''c'', ''d'', ''e'', ''f'', ''g'', ''h''] \<and>
             (\<exists>i. r = Num (of_int i) \<and> 1 \<le> i \<and> i \<le> 8))) \<and>
         (\<forall>p. Position_new f r = Inr p \<longrightarrow>
            file' p = toUpperCase f \<and>
            file' p \<in> set [''A'', ''B'', ''C'', ''D'', ''E'', ''F'', ''G'', ''H''] \<and>
            1 \<le> rank p \<and> rank p \<le> 8 \<and> r = Num (of_int (rank p)) \<and> isValid p)"
proof -
  note v = isValidFile_short [OF assms(1)]
  have a: "(Position_new f r = Inl (InvalidFile f)) =
            (f \<notin> set [''A'', ''B'', ''C'', ''D'', ''E'', ''F'', ''G'', ''H'',
                       ''a'', ''b'', ''c'', ''d'', ''e'', ''f'', ''g'', ''h''])"
    unfolding v [symmetric] by (simp add: Position_new_cases)
  have b: "(Position_new f r = Inl (InvalidRank r)) =
            (f \<in> set [''A'', ''B'', ''C'', ''D'', ''E'', ''F'', ''G'', ''H'',
                       ''a'', ''b'', ''c'', ''d'', ''e'', ''f'', ''g'', ''h''] \<and>
             \<not> (\<exists>i. r = Num (of_int i) \<and> 1 \<le> i \<and> i \<le> 8))"
    unfolding v [symmetric] by (simp add: Position_new_cases)
  have c: "(\<exists>p. Position_new f r = Inr p) =
            (f \<in> set [''A'', ''B'', ''C'', ''D'', ''E'', ''F'', ''G'', ''H'',
                       ''a'', ''b'', ''c'', ''d'', ''e'', ''f'', ''g'', ''h''] \<and>
             (\<exists>i. r = Num (of_int i) \<and> 1 \<le> i \<and> i \<le> 8))"
    unfolding v [symmetric] by (auto simp: Position_new_cases)
  have d: "\<forall>p. Position_new f r = Inr p \<longrightarrow>
            file' p = toUpperCase f \<and>
            file' p \<in> set [''A'', ''B'', ''C'', ''D'', ''E'', ''F'', ''G'', ''H''] \<and>
            1 \<le> rank p \<and> rank p \<le> 8 \<and> r = Num (of_int (rank p)) \<and> isValid p"
  proof (intro allI impI)
    fix p assume p: "Position_new f r = Inr p"
    then have vf: "isValidFile f" and i: "\<exists>i. r = Num (of_int i) \<and> 1 \<le> i \<and> i \<le> 8"
      and pe: "p = \<lparr>file' = toUpperCase f, rank = integral r\<rparr>"
      by (auto simp: Position_new_cases split: if_splits)
    from vf have "toUpperCase f \<in> set [''A'', ''B'', ''C'', ''D'', ''E'', ''F'', ''G'', ''H'']"
      unfolding v by (rule toUpperCase_letter)
    moreover from this have "isValidFile (toUpperCase f)" by (auto simp: isValidFile_single)
    ultimately show "file' p = toUpperCase f \<and>
            file' p \<in> set [''A'', ''B'', ''C'', ''D'', ''E'', ''F'', ''G'', ''H''] \<and>
            1 \<le> rank p \<and> rank p \<le> 8 \<and> r = Num (of_int (rank p)) \<and> isValid p"
      using i by (auto simp: pe integral_of_int isValid_def isValidRank_iff)
  qed
  from a b c d show ?thesis by blast
qed

theorem construct_validation_witness:
  "length ''d'' \<le> 1 \<and> isASCII ''d'' \<and> isASCII ''i'' \<and> isASCII [] \<and>
   Position_new ''d'' (Num 5) = Inr \<lparr>file' = ''D'', rank = 5\<rparr> \<and>
   file' \<lparr>file' = ''D'', rank = 5\<rparr> = toUpperCase ''d'' \<and>
   Position_new ''i'' (Num 5) = Inl (InvalidFile ''i'') \<and>
   Position_new [] (Num 5) = Inl (InvalidFile []) \<and>
   Position_new ''d'' (Num (3 / 2)) = Inl (InvalidRank (Num (3 / 2))) \<and>
   Position_new ''d'' NaN = Inl (InvalidRank NaN)"
proof -
  have l: "length ''d'' \<le> 1" "length ''i'' \<le> 1" "length ([] :: string) \<le> 1" by simp_all
  have k: "isASCII ''d''" "isASCII ''i''" "isASCII []" by (simp_all add: isASCII_def)
  have u: "toUpperCase ''d'' = ''D''" by code_simp
  have n: "\<not> (\<exists>i. Num (3 / 2) = Num (rat_of_int i) \<and> 1 \<le> i \<and> i \<le> 8)"
  proof
    assume "\<exists>i. Num (3 / 2) = Num (rat_of_int i) \<and> 1 \<le> i \<and> i \<le> 8"
    then obtain i where "(3 / 2 :: rat) = of_int i" by auto
    then have "(3 / 2 :: rat) \<in> \<int>" by (metis Ints_of_int)
    then show False by simp
  qed
  have 0: "Position_new ''d'' (Num 5) = Inr \<lparr>file' = ''D'', rank = 5\<rparr>"
  proof -
    have "\<exists>i. Num 5 = Num (rat_of_int i) \<and> 1 \<le> i \<and> i \<le> 8" by (intro exI [of _ 5]) simp
    with construct_validation [OF l(1) k(1), of "Num 5"]
    obtain p where p: "Position_new ''d'' (Num 5) = Inr p" by auto
    with construct_validation [OF l(1) k(1), of "Num 5"]
    have "file' p = toUpperCase ''d''" "Num 5 = Num (of_int (rank p))" by blast+
    then have "p = \<lparr>file' = ''D'', rank = 5\<rparr>" by (simp add: u)
    with p show ?thesis by simp
  qed
  have 1: "Position_new ''i'' (Num 5) = Inl (InvalidFile ''i'')"
    using construct_validation [OF l(2) k(2), of "Num 5"] by simp
  have 2: "Position_new [] (Num 5) = Inl (InvalidFile [])"
    using construct_validation [OF l(3) k(3), of "Num 5"] by simp
  have 3: "Position_new ''d'' (Num (3 / 2)) = Inl (InvalidRank (Num (3 / 2)))"
    using construct_validation [OF l(1) k(1), of "Num (3 / 2)"] n by simp
  have 4: "Position_new ''d'' NaN = Inl (InvalidRank NaN)"
    using construct_validation [OF l(1) k(1), of NaN] by simp
  from l(1) k 0 u 1 2 3 4 show ?thesis by simp
qed

text \<open>
  With the file I and the rank 0 the rank is not an integer from 1 to 8, and construction
  fails with the file error, not with the rank error.
\<close>

theorem construct_validation_counterexample:
  "\<not> isValidRank (Num 0) \<and>
   Position_new ''I'' (Num 0) \<noteq> Inl (InvalidRank (Num 0)) \<and>
   Position_new ''I'' (Num 0) = Inl (InvalidFile ''I'')"
  by (auto simp: Position_new_cases isValidFile_single isValidRank_iff)

text \<open>
  \<open>isValidFile\<close> compares whole strings, so a file of several characters passes when its
  first character is a letter A-G or a-g, and the position keeps all of them. Claim C6 as
  amended says nothing about such files.
\<close>

lemma constructor_keeps_longer_file:
  "Position_new ''AB'' (Num 1) = Inr \<lparr>file' = ''AB'', rank = 1\<rparr> \<and>
   toNotation \<lparr>file' = ''AB'', rank = 1\<rparr> = ''AB1''"
  by code_simp

text \<open>
  Claim C7, amended. For ASCII text: \<open>fromNotation\<close> fails with the notation error
  exactly when the text is not two characters long. Every two-character text goes to the
  constructor with the upper-cased first character and \<open>parseInt\<close> of the second, whose
  result is returned unchanged: a first character that is not a letter A-H or a-h fails
  there with the file error, after a valid file a second character that is not a digit
  fails with the rank error for \<open>NaN\<close>, and a digit is the rank that the constructor
  checks.
\<close>

theorem fromNotation_errors:
  assumes "isASCII t"
  shows "((\<exists>s. fromNotation t = Inl (InvalidNotation s)) = (length t \<noteq> 2)) \<and>
   (length t \<noteq> 2 \<longrightarrow> fromNotation t = Inl (InvalidNotation t)) \<and>
   (length t = 2 \<longrightarrow>
      fromNotation t = Position_new (toUpperCase [t ! 0]) (parseInt [t ! 1]) \<and>
      (toUpperCase [t ! 0] \<notin> set [''A'', ''B'', ''C'', ''D'', ''E'', ''F'', ''G'', ''H''] \<longrightarrow>
         fromNotation t = Inl (InvalidFile (toUpperCase [t ! 0]))) \<and>
      (toUpperCase [t ! 0] \<in> set [''A'', ''B'', ''C'', ''D'', ''E'', ''F'', ''G'', ''H''] \<and>
       \<not> isDigit (t ! 1) \<longrightarrow> fromNotation t = Inl (InvalidRank NaN)) \<and>
      (isDigit (t ! 1) \<longrightarrow> parseInt [t ! 1] = Num (of_int (int (of_char (t ! 1)) - 48))))"
proof -
  have ne: "Position_new f r \<noteq> Inl (InvalidNotation s)" for f r s
    by (simp add: Position_new_def)
  have a: "(\<exists>s. fromNotation t = Inl (InvalidNotation s)) = (length t \<noteq> 2)"
    by (auto simp: fromNotation_def ne)
  have b: "length t \<noteq> 2 \<longrightarrow> fromNotation t = Inl (InvalidNotation t)"
    by (auto simp: fromNotation_def)
  have c: "fromNotation t = Position_new (toUpperCase [t ! 0]) (parseInt [t ! 1])" if "length t = 2"
    using that by (auto simp: fromNotation_def charAt_def)
  have up: "toUpperCase (toUpperCase [x]) = toUpperCase [x]" for x
    by (auto simp: toUpperCase_def toUpperCase_char_def Let_def)
  have v: "isValidFile (toUpperCase [x]) =
      (toUpperCase [x] \<in> set [''A'', ''B'', ''C'', ''D'', ''E'', ''F'', ''G'', ''H''])" for x
  proof -
    have "isValidFile (toUpperCase [x]) =
       (65 \<le> (of_char (toUpperCase_char x) :: nat) \<and> (of_char (toUpperCase_char x) :: nat) \<le> 72)"
      using up [of x] by (auto simp: isValidFile_iff toUpperCase_def)
    then show ?thesis by (simp add: upper_letter_iff toUpperCase_def)
  qed
  have pn: "parseInt [d] = NaN" if "\<not> isDigit d" for d
    using that by (auto simp: parseInt_def Let_def)
  have pd: "parseInt [d] = Num (of_int (int (of_char d) - 48))" if "isDigit d" for d
  proof -
    from that have w: "\<not> isWhiteSpace d" by (auto simp: isDigit_def isWhiteSpace_def)
    from that have m: "d \<noteq> CHR ''-''" "d \<noteq> CHR ''+''" by (auto simp: isDigit_def)
    from that w m show ?thesis by (simp add: parseInt_def Let_def digitsValue_def)
  qed
  have d: "fromNotation t = Inl (InvalidFile (toUpperCase [t ! 0]))"
    if "length t = 2" "toUpperCase [t ! 0] \<notin> set [''A'', ''B'', ''C'', ''D'', ''E'', ''F'', ''G'', ''H'']"
    using that(2) unfolding c [OF that(1)] v [symmetric] by (simp add: Position_new_def)
  have e: "fromNotation t = Inl (InvalidRank NaN)"
    if "length t = 2" "toUpperCase [t ! 0] \<in> set [''A'', ''B'', ''C'', ''D'', ''E'', ''F'', ''G'', ''H'']"
       "\<not> isDigit (t ! 1)"
    using that(2) unfolding c [OF that(1)] v [symmetric] pn [OF that(3)]
    by (simp add: Position_new_def isValidRank_def isInteger_def)
  from a b c d e pd show ?thesis by blast
qed

theorem fromNotation_errors_witness:
  "isASCII ''D55'' \<and> isASCII ''5D'' \<and> isASCII ''D?'' \<and> isASCII ''D9'' \<and> isASCII ''d5'' \<and>
   fromNotation ''D55'' = Inl (InvalidNotation ''D55'') \<and>
   fromNotation ''5D'' = Inl (InvalidFile ''5'') \<and>
   fromNotation ''D?'' = Inl (InvalidRank NaN) \<and>
   fromNotation ''D9'' = Position_new ''D'' (Num 9) \<and>
   fromNotation ''d5'' = Position_new ''D'' (Num 5)"
proof -
  have k: "isASCII ''D55''" "isASCII ''5D''" "isASCII ''D?''" "isASCII ''D9''" "isASCII ''d5''"
    by (simp_all add: isASCII_def)
  have u: "toUpperCase ''5'' = ''5''" "toUpperCase ''D'' = ''D''" "toUpperCase ''d'' = ''D''"
    by code_simp+
  have d: "\<not> isDigit CHR ''?''" "isDigit CHR ''9''" "isDigit CHR ''5''" by (simp_all add: isDigit_def)
  have 1: "fromNotation ''D55'' = Inl (InvalidNotation ''D55'')"
    using fromNotation_errors [OF k(1)] by simp
  have l: "length ''5D'' = 2" "length ''D?'' = 2" "length ''D9'' = 2" "length ''d5'' = 2" by simp_all
  from fromNotation_errors [OF k(2)] l(1)
  have "toUpperCase [''5D'' ! 0] \<notin> set [''A'', ''B'', ''C'', ''D'', ''E'', ''F'', ''G'', ''H''] \<longrightarrow>
         fromNotation ''5D'' = Inl (InvalidFile (toUpperCase [''5D'' ! 0]))"
    by blast
  with u have 2: "fromNotation ''5D'' = Inl (InvalidFile ''5'')" by simp
  from fromNotation_errors [OF k(3)] l(2)
  have "toUpperCase [''D?'' ! 0] \<in> set [''A'', ''B'', ''C'', ''D'', ''E'', ''F'', ''G'', ''H''] \<and>
       \<not> isDigit (''D?'' ! 1) \<longrightarrow> fromNotation ''D?'' = Inl (InvalidRank NaN)"
    by blast
  with u d have 3: "fromNotation ''D?'' = Inl (InvalidRank NaN)" by simp
  from fromNotation_errors [OF k(4)] l(3)
  have "fromNotation ''D9'' = Position_new (toUpperCase [''D9'' ! 0]) (parseInt [''D9'' ! 1])"
    and "isDigit (''D9'' ! 1) \<longrightarrow> parseInt [''D9'' ! 1] = Num (of_int (int (of_char (''D9'' ! 1)) - 48))"
    by blast+
  with u d have 4: "fromNotation ''D9'' = Position_new ''D'' (Num 9)" by simp
  from fromNotation_errors [OF k(5)] l(4)
  have "fromNotation ''d5'' = Position_new (toUpperCase [''d5'' ! 0]) (parseInt [''d5'' ! 1])"
    and "isDigit (''d5'' ! 1) \<longrightarrow> parseInt [''d5'' ! 1] = Num (of_int (int (of_char (''d5'' ! 1)) - 48))"
    by blast+
  with u d have 5: "fromNotation ''d5'' = Position_new ''D'' (Num 5)" by simp
  from k 1 2 3 4 5 show ?thesis by simp
qed

text \<open>
  The text DD is two characters long and its second character is not a digit: the error
  is the rank error for \<open>NaN\<close>, not the notation error.
\<close>

theorem fromNotation_errors_counterexample:
  "\<not> isDigit CHR ''D'' \<and> fromNotation ''DD'' \<noteq> Inl (InvalidNotation ''DD'') \<and>
   fromNotation ''DD'' = Inl (InvalidRank NaN)"
proof -
  have "fromNotation ''DD'' = Inl (InvalidRank NaN)" by code_simp
  then show ?thesis by (simp add: isDigit_def)
qed

text \<open>
  Claim C10. For every file index from 32 to 39, outside 0..7, the character with code
  \<open>65 + i\<close> is a lower-case letter a-h, and \<open>fromCoordinates\<close> succeeds for every rank from 1
  to 8 with the position whose file is that letter upper-cased.
\<close>

theorem fromCoordinates_lowercase_codes:
  assumes "32 \<le> i" and "i \<le> 39" and "1 \<le> r" and "r \<le> 8"
  shows "\<not> (0 \<le> i \<and> i \<le> 7) \<and>
         [char_of (65 + i)] \<in> set [''a'', ''b'', ''c'', ''d'', ''e'', ''f'', ''g'', ''h''] \<and>
         toUpperCase [char_of (65 + i)] \<in> set [''A'', ''B'', ''C'', ''D'', ''E'', ''F'', ''G'', ''H''] \<and>
         fromCoordinates i (Num (of_int r)) =
           Inr \<lparr>file' = toUpperCase [char_of (65 + i)], rank = r\<rparr>"
proof -
  let ?c = "char_of (65 + i) :: char"
  have oc: "(of_char ?c :: nat) = nat (65 + i)"
    using assms by (intro char_of_int_code) auto
  have lo: "?c \<in> set ''abcdefgh''"
    unfolding lower_letter_iff [symmetric] using assms by (auto simp: oc)
  then have l: "[?c] \<in> set [''a'', ''b'', ''c'', ''d'', ''e'', ''f'', ''g'', ''h'']" by simp
  then have u: "toUpperCase [?c] \<in> set [''A'', ''B'', ''C'', ''D'', ''E'', ''F'', ''G'', ''H'']"
    by (intro toUpperCase_letter) simp
  have v: "isValidFile [?c]" using lo by (simp only: isValidFile_single) simp
  have m: "(65 + i) mod 65536 = 65 + i" using assms by simp
  have "fromCoordinates i (Num (of_int r)) = Inr \<lparr>file' = toUpperCase [?c], rank = r\<rparr>"
    using assms Position_new_valid [OF v assms(3,4)] by (simp add: fromCoordinates_def Let_def m)
  with l u assms show ?thesis by simp
qed

theorem fromCoordinates_lowercase_codes_witness:
  "fromCoordinates 32 (Num 1) = Inr \<lparr>file' = ''A'', rank = 1\<rparr> \<and>
   fromCoordinates 39 (Num 8) = Inr \<lparr>file' = ''H'', rank = 8\<rparr>"
proof -
  have u: "toUpperCase [char_of (65 + 32 :: int)] = ''A''" "toUpperCase [char_of (65 + 39 :: int)] = ''H''"
    by code_simp+
  from fromCoordinates_lowercase_codes [of 32 1] fromCoordinates_lowercase_codes [of 39 8] u
  show ?thesis by simp
qed

section \<open>Error propagation\<close>

lemma createStrategy_cases:
  "createStrategy pt =
     (if pt = PAWN then Inr PawnMovementStrategy
      else if pt = KING then Inr KingMovementStrategy
      else if pt = QUEEN then Inr QueenMovementStrategy
      else Inl (NoMovementStrategy pt))"
  by (simp add: createStrategy_def strategyMap_def)





section \<open>Properties of the movement strategies\<close>

lemma directions_cases:
  "(fd, rd) \<in> set directions \<Longrightarrow>
     (fd = -1 \<or> fd = 0 \<or> fd = 1) \<and> (rd = -1 \<or> rd = 0 \<or> rd = 1) \<and> \<not> (fd = 0 \<and> rd = 0)"
  by (auto simp: directions_def)


lemma ray_loop:
  assumes dir: "(fd, rd) \<in> set directions"
  shows "fileIndex p = Some x \<Longrightarrow> onBoard x (rank p) \<Longrightarrow> n = nat (15 - fd * x - rd * rank p) \<Longrightarrow>
     \<exists>ms. generateMovesInDirection_loop fd rd maxSteps moves steps p = Some (Inr (moves @ ms)) \<and>
          (\<forall>m \<in> set ms. \<exists>k\<ge>1. m = boardSquare (x + k * fd) (rank p + k * rd) \<and>
                                 onBoard (x + k * fd) (rank p + k * rd))"
proof (induction n arbitrary: p x moves steps rule: less_induct)
  case (less n)
  let ?y = "rank p"
  note d = directions_cases [OF dir]
  show ?case
  proof (cases "maxSteps = None \<or> steps < the maxSteps")
    case False
    then have "generateMovesInDirection_loop fd rd maxSteps moves steps p = Some (Inr (moves @ []))"
      by (subst generateMovesInDirection_loop.simps) auto
    then show ?thesis by fastforce
  next
    case guard: True
    show ?thesis
    proof (cases "onBoard (x + fd) (?y + rd)")
      case False
      then have "offset p fd rd = Inr None"
        by (auto simp: offset_fileIndex [OF less.prems(1)] onBoard_def)
      with guard have "generateMovesInDirection_loop fd rd maxSteps moves steps p = Some (Inr (moves @ []))"
        by (subst generateMovesInDirection_loop.simps) simp
      then show ?thesis by fastforce
    next
      case True
      let ?q = "boardSquare (x + fd) (?y + rd)"
      from True have off: "offset p fd rd = Inr (Some ?q)"
        by (auto simp: offset_fileIndex [OF less.prems(1)] onBoard_def)
      from True have q1: "fileIndex ?q = Some (x + fd)"
        by (simp add: fileIndex_boardSquare onBoard_def)
      have q2: "rank ?q = ?y + rd" by (simp add: rank_boardSquare)
      from True have q3: "onBoard (x + fd) (rank ?q)" by (simp add: q2)
      have dec: "nat (15 - fd * (x + fd) - rd * rank ?q) < n"
        using d less.prems(2,3) True unfolding q2 onBoard_def by (auto simp: algebra_simps)
      from less.IH [OF dec q1 q3 refl, of "moves @ [?q]" "steps + 1"]
      obtain ms where ms: "generateMovesInDirection_loop fd rd maxSteps (moves @ [?q]) (steps + 1) ?q
            = Some (Inr ((moves @ [?q]) @ ms))"
        and el: "\<forall>m \<in> set ms. \<exists>k\<ge>1. m = boardSquare (x + fd + k * fd) (rank ?q + k * rd) \<and>
                                 onBoard (x + fd + k * fd) (rank ?q + k * rd)"
        by blast
      from guard off ms
      have r: "generateMovesInDirection_loop fd rd maxSteps moves steps p = Some (Inr (moves @ (?q # ms)))"
        by (subst generateMovesInDirection_loop.simps) simp
      have "\<exists>k\<ge>1. m = boardSquare (x + k * fd) (?y + k * rd) \<and> onBoard (x + k * fd) (?y + k * rd)"
        if "m \<in> set (?q # ms)" for m
      proof (cases "m = ?q")
        case True
        with \<open>onBoard (x + fd) (?y + rd)\<close> show ?thesis by (intro exI [of _ 1]) simp
      next
        case False
        with that have "m \<in> set ms" by simp
        with el obtain k where k: "k \<ge> 1" "m = boardSquare (x + fd + k * fd) (rank ?q + k * rd)"
          "onBoard (x + fd + k * fd) (rank ?q + k * rd)" by blast
        then show ?thesis
          by (intro exI [of _ "k + 1"]) (simp add: rank_boardSquare algebra_simps)
      qed
      with r show ?thesis by blast
    qed
  qed
qed


lemma all_directions_loop:
  assumes p: "fileIndex p = Some x" "onBoard x (rank p)"
  shows "set ds \<subseteq> set directions \<Longrightarrow>
     \<exists>ms. generateMovesInAllDirections_loop p maxSteps ds acc = Some (Inr (acc @ ms)) \<and>
          (\<forall>m \<in> set ms. \<exists>fd rd k. (fd, rd) \<in> set ds \<and> k \<ge> 1 \<and>
               m = boardSquare (x + k * fd) (rank p + k * rd) \<and>
               onBoard (x + k * fd) (rank p + k * rd))"
proof (induction ds arbitrary: acc)
  case Nil
  then show ?case by simp
next
  case (Cons d ds)
  obtain fd rd where d: "d = (fd, rd)" by (cases d)
  with Cons.prems have dir: "(fd, rd) \<in> set directions" and sub: "set ds \<subseteq> set directions" by auto
  from ray_loop [OF dir p refl, of maxSteps "[]" 0]
  obtain ms1 where m1: "generateMovesInDirection p fd rd maxSteps = Some (Inr ms1)"
    and e1: "\<forall>m \<in> set ms1. \<exists>k\<ge>1. m = boardSquare (x + k * fd) (rank p + k * rd) \<and>
                                 onBoard (x + k * fd) (rank p + k * rd)"
    by (auto simp: generateMovesInDirection_def)
  from Cons.IH [OF sub, of "acc @ ms1"]
  obtain ms2 where m2: "generateMovesInAllDirections_loop p maxSteps ds (acc @ ms1) = Some (Inr ((acc @ ms1) @ ms2))"
    and e2: "\<forall>m \<in> set ms2. \<exists>fd rd k. (fd, rd) \<in> set ds \<and> k \<ge> 1 \<and>
               m = boardSquare (x + k * fd) (rank p + k * rd) \<and>
               onBoard (x + k * fd) (rank p + k * rd)"
    by blast
  have r: "generateMovesInAllDirections_loop p maxSteps (d # ds) acc = Some (Inr (acc @ (ms1 @ ms2)))"
    by (simp add: d m1 m2)
  have "\<exists>fd rd k. (fd, rd) \<in> set (d # ds) \<and> k \<ge> 1 \<and>
               m = boardSquare (x + k * fd) (rank p + k * rd) \<and>
               onBoard (x + k * fd) (rank p + k * rd)" if "m \<in> set (ms1 @ ms2)" for m
  proof (cases "m \<in> set ms1")
    case True
    with e1 show ?thesis unfolding d by fastforce
  next
    case False
    with that have "m \<in> set ms2" by simp
    with e2 show ?thesis by fastforce
  qed
  with r show ?case by blast
qed

lemma boardSquare_file:
  assumes "onBoard a b"
  shows "file' (boardSquare a b) \<in> set [''A'', ''B'', ''C'', ''D'', ''E'', ''F'', ''G'', ''H'']"
proof -
  from assms have "(of_char (char_of (65 + a) :: char) :: nat) = nat (65 + a)"
    by (simp add: of_char_boardSquare onBoard_def)
  with assms have "65 \<le> (of_char (char_of (65 + a) :: char) :: nat) \<and> (of_char (char_of (65 + a) :: char) :: nat) \<le> 72"
    by (auto simp: onBoard_def)
  then have "(char_of (65 + a) :: char) \<in> set ''ABCDEFGH''" by (simp only: upper_letter_iff)
  then show ?thesis by (simp add: boardSquare_def)
qed

lemma moved_square:
  assumes p: "fileIndex p = Some x" "onBoard x (rank p)"
    and d: "(fd, rd) \<in> set directions" and k: "k \<ge> 1"
    and m: "m = boardSquare (x + k * fd) (rank p + k * rd)" "onBoard (x + k * fd) (rank p + k * rd)"
  shows "m \<noteq> p \<and> \<not> equals m p \<and>
         file' m \<in> set [''A'', ''B'', ''C'', ''D'', ''E'', ''F'', ''G'', ''H''] \<and>
         1 \<le> rank m \<and> rank m \<le> 8 \<and> isValid m"
proof -
  from m have fi: "fileIndex m = Some (x + k * fd)" and rk: "rank m = rank p + k * rd"
    by (simp_all add: fileIndex_boardSquare rank_boardSquare onBoard_def)
  from directions_cases [OF d] k have "x + k * fd \<noteq> x \<or> rank p + k * rd \<noteq> rank p" by auto
  with fi rk p(1) have ne: "file' m \<noteq> file' p \<or> rank m \<noteq> rank p"
    by (auto simp: fileIndex_def split: list.splits)
  then have "m \<noteq> p" "\<not> equals m p" by (auto simp: equals_def)
  moreover from m have "file' m \<in> set [''A'', ''B'', ''C'', ''D'', ''E'', ''F'', ''G'', ''H'']"
    by (simp only: boardSquare_file)
  moreover from m rk have "1 \<le> rank m" "rank m \<le> 8" by (simp_all add: onBoard_def)
  moreover from m have "isValid m" by (simp add: isValid_boardSquare onBoard_def)
  ultimately show ?thesis by blast
qed

lemma constructed_onBoard:
  assumes "Position_new f r = Inr p"
  obtains x where "fileIndex p = Some x" "onBoard x (rank p)"
  using constructed_fileIndex [OF assms] by (auto simp: onBoard_def)

lemma all_directions_moves:
  assumes "Position_new f r = Inr p"
  shows "\<exists>ms. generateMovesInAllDirections p maxSteps = Some (Inr ms) \<and>
     (\<forall>m \<in> set ms. m \<noteq> p \<and> \<not> equals m p \<and>
         file' m \<in> set [''A'', ''B'', ''C'', ''D'', ''E'', ''F'', ''G'', ''H''] \<and>
         1 \<le> rank m \<and> rank m \<le> 8 \<and> isValid m)"
proof -
  from assms obtain x where p: "fileIndex p = Some x" "onBoard x (rank p)"
    by (rule constructed_onBoard)
  from all_directions_loop [OF p subset_refl, of maxSteps "[]"]
  obtain ms where ms: "generateMovesInAllDirections p maxSteps = Some (Inr ms)"
    and el: "\<forall>m \<in> set ms. \<exists>fd rd k. (fd, rd) \<in> set directions \<and> k \<ge> 1 \<and>
               m = boardSquare (x + k * fd) (rank p + k * rd) \<and>
               onBoard (x + k * fd) (rank p + k * rd)"
    by (auto simp: generateMovesInAllDirections_def)
  from el have "\<forall>m \<in> set ms. m \<noteq> p \<and> \<not> equals m p \<and>
         file' m \<in> set [''A'', ''B'', ''C'', ''D'', ''E'', ''F'', ''G'', ''H''] \<and>
         1 \<le> rank m \<and> rank m \<le> 8 \<and> isValid m"
    using moved_square [OF p] by blast
  with ms show ?thesis by blast
qed

lemma boardSquare_take:
  assumes "fileIndex p = Some x"
  shows "boardSquare x y = \<lparr>file' = take 1 (file' p), rank = y\<rparr>"
proof -
  from assms obtain c cs where f: "file' p = c # cs" and x: "x = int (of_char c) - 65"
    by (auto simp: fileIndex_def split: list.splits)
  have "char_of (65 + x) = c" unfolding x by simp
  then show ?thesis by (simp add: boardSquare_def f)
qed

lemma Pawn_moves:
  assumes p: "fileIndex p = Some x" "onBoard x (rank p)"
  shows "Pawn_calculateValidMoves p =
           Inr (if rank p < 8 then [boardSquare x (rank p + 1)] else [])"
  using p by (auto simp: Pawn_calculateValidMoves_def offset_fileIndex [OF p(1)] onBoard_def)


lemma strategy_moves_on_board:
  assumes "Position_new f r = Inr p"
  shows "\<exists>ms. strategy_calculateValidMoves s p = Some (Inr ms) \<and>
            (\<forall>m \<in> set ms. m \<noteq> p \<and> \<not> equals m p \<and>
               file' m \<in> set [''A'', ''B'', ''C'', ''D'', ''E'', ''F'', ''G'', ''H''] \<and>
               1 \<le> rank m \<and> rank m \<le> 8)"
proof -
  from assms obtain x where p: "fileIndex p = Some x" "onBoard x (rank p)"
    by (rule constructed_onBoard)
  have ok: "m \<noteq> p \<and> \<not> equals m p \<and>
               file' m \<in> set [''A'', ''B'', ''C'', ''D'', ''E'', ''F'', ''G'', ''H''] \<and>
               1 \<le> rank m \<and> rank m \<le> 8"
    if "rank p < 8" "m = boardSquare x (rank p + 1)" for m
  proof -
    have "(0, 1) \<in> set directions" by (simp add: directions_def)
    from moved_square [OF p this, of 1 m] that p(2) show ?thesis by (simp add: onBoard_def)
  qed
  show ?thesis
  proof (cases s)
    case PawnMovementStrategy
    show ?thesis
    proof (cases "rank p < 8")
      case True
      with ok [OF True refl] show ?thesis
        unfolding PawnMovementStrategy by (simp add: Pawn_moves [OF p])
    next
      case False
      then show ?thesis unfolding PawnMovementStrategy by (simp add: Pawn_moves [OF p])
    qed
  next
    case KingMovementStrategy
    from all_directions_moves [OF assms, of "Some 1"] show ?thesis
      unfolding KingMovementStrategy by (simp add: King_calculateValidMoves_def) blast
  next
    case QueenMovementStrategy
    from all_directions_moves [OF assms, of None] show ?thesis
      unfolding QueenMovementStrategy by (simp add: Queen_calculateValidMoves_def) blast
  qed
qed

text \<open>
  Claim C9. For every constructed origin the Pawn rule returns exactly the square one rank
  up on the same file when the rank is below 8 and nothing on rank 8; each of the three
  rules returns an array, without looping forever and without throwing, and every square
  in it differs from the origin, has a file among A-H and a rank from 1 to 8.
\<close>

theorem rules_stay_on_board:
  assumes "Position_new f r = Inr p"
  shows "(length f = 1 \<longrightarrow>
            Pawn_calculateValidMoves p = Inr (if rank p < 8 then [p\<lparr>rank := rank p + 1\<rparr>] else [])) \<and>
         Pawn_calculateValidMoves p =
            Inr (if rank p < 8 then [\<lparr>file' = take 1 (file' p), rank = rank p + 1\<rparr>] else []) \<and>
         (\<forall>s. \<exists>ms. strategy_calculateValidMoves s p = Some (Inr ms) \<and>
            (\<forall>m \<in> set ms. m \<noteq> p \<and> \<not> equals m p \<and>
               file' m \<in> set [''A'', ''B'', ''C'', ''D'', ''E'', ''F'', ''G'', ''H''] \<and>
               1 \<le> rank m \<and> rank m \<le> 8))"
proof -
  from assms obtain x where p: "fileIndex p = Some x" "onBoard x (rank p)"
    by (rule constructed_onBoard)
  have pawn: "Pawn_calculateValidMoves p =
            Inr (if rank p < 8 then [\<lparr>file' = take 1 (file' p), rank = rank p + 1\<rparr>] else [])"
    by (simp add: Pawn_moves [OF p] boardSquare_take [OF p(1)])
  have one: "Pawn_calculateValidMoves p = Inr (if rank p < 8 then [p\<lparr>rank := rank p + 1\<rparr>] else [])"
    if "length f = 1"
  proof -
    from assms have "file' p = toUpperCase f" by (auto simp: Position_new_def split: if_splits)
    with that have "take 1 (file' p) = file' p" by (simp add: toUpperCase_def)
    then have "\<lparr>file' = take 1 (file' p), rank = rank p + 1\<rparr> = p\<lparr>rank := rank p + 1\<rparr>" by simp
    with pawn show ?thesis by simp
  qed
  from pawn one strategy_moves_on_board [OF assms] show ?thesis by blast
qed

theorem rules_stay_on_board_witness:
  "Position_new ''D'' (Num 7) = Inr \<lparr>file' = ''D'', rank = 7\<rparr> \<and>
   Pawn_calculateValidMoves \<lparr>file' = ''D'', rank = 7\<rparr> = Inr [\<lparr>file' = ''D'', rank = 8\<rparr>] \<and>
   Position_new ''D'' (Num 8) = Inr \<lparr>file' = ''D'', rank = 8\<rparr> \<and>
   Pawn_calculateValidMoves \<lparr>file' = ''D'', rank = 8\<rparr> = Inr []"
proof -
  have 7: "Position_new ''D'' (Num 7) = Inr \<lparr>file' = ''D'', rank = 7\<rparr>" by code_simp
  have 8: "Position_new ''D'' (Num 8) = Inr \<lparr>file' = ''D'', rank = 8\<rparr>" by code_simp
  from rules_stay_on_board [OF 7] rules_stay_on_board [OF 8] 7 8 show ?thesis by simp
qed

lemma king_direction:
  "generateMovesInDirection p fd rd (Some 1) =
     (case offset p fd rd of
        Inl e \<Rightarrow> Some (Inl e)
      | Inr None \<Rightarrow> Some (Inr [])
      | Inr (Some q) \<Rightarrow> Some (Inr [q]))"
  unfolding generateMovesInDirection_def
  apply (subst generateMovesInDirection_loop.simps)
  apply (simp split: sum.splits option.splits)
  apply (subst generateMovesInDirection_loop.simps)
  apply simp
  done

lemma king_loop:
  assumes p: "fileIndex p = Some x"
  shows "generateMovesInAllDirections_loop p (Some 1) ds acc =
     Some (Inr (acc @ map (\<lambda>(fd, rd). boardSquare (x + fd) (rank p + rd))
                        (filter (\<lambda>(fd, rd). onBoard (x + fd) (rank p + rd)) ds)))"
proof (induction ds arbitrary: acc)
  case Nil
  then show ?case by simp
next
  case (Cons d ds)
  obtain fd rd where d: "d = (fd, rd)" by (cases d)
  show ?case
    unfolding d by (auto simp: king_direction offset_fileIndex [OF p] Cons.IH onBoard_def)
qed

lemma king_moves:
  assumes p: "fileIndex p = Some x"
  shows "King_calculateValidMoves p =
     Some (Inr (map (\<lambda>(fd, rd). boardSquare (x + fd) (rank p + rd))
                        (filter (\<lambda>(fd, rd). onBoard (x + fd) (rank p + rd)) directions)))"
  by (simp add: King_calculateValidMoves_def generateMovesInAllDirections_def king_loop [OF p])

lemma king_count:
  assumes "onBoard x y"
  shows "length (filter (\<lambda>(fd, rd). onBoard (x + fd) (y + rd)) directions) =
     (if (x = 0 \<or> x = 7) \<and> (y = 1 \<or> y = 8) then 3
      else if x = 0 \<or> x = 7 \<or> y = 1 \<or> y = 8 then 5 else 8)"
proof -
  consider "x = 0" | "x = 7" | "0 < x" "x < 7" using assms by atomize_elim (auto simp: onBoard_def)
  then show ?thesis
  proof cases
    case 1
    consider "y = 1" | "y = 8" | "1 < y" "y < 8" using assms by atomize_elim (auto simp: onBoard_def)
    then show ?thesis using 1 by cases (simp_all add: directions_def onBoard_def)
  next
    case 2
    consider "y = 1" | "y = 8" | "1 < y" "y < 8" using assms by atomize_elim (auto simp: onBoard_def)
    then show ?thesis using 2 by cases (simp_all add: directions_def onBoard_def)
  next
    case 3
    consider "y = 1" | "y = 8" | "1 < y" "y < 8" using assms by atomize_elim (auto simp: onBoard_def)
    then show ?thesis using 3 by cases (simp_all add: directions_def onBoard_def)
  qed
qed

lemma boardSquare_inj:
  "inj_on (\<lambda>(a, b). boardSquare a b) {(a, b). onBoard a b}"
proof (rule inj_onI)
  fix u v assume u: "u \<in> {(a, b). onBoard a b}" and v: "v \<in> {(a, b). onBoard a b}"
    and e: "(case u of (a, b) \<Rightarrow> boardSquare a b) = (case v of (a, b) \<Rightarrow> boardSquare a b)"
  obtain a b where ab: "u = (a, b)" by (cases u)
  obtain c d where cd: "v = (c, d)" by (cases v)
  from e have e': "boardSquare a b = boardSquare c d" by (simp add: ab cd)
  from u v have "fileIndex (boardSquare a b) = Some a" "fileIndex (boardSquare c d) = Some c"
    by (simp_all add: ab cd fileIndex_boardSquare onBoard_def)
  with e' have "a = c" by simp
  moreover from e' have "b = d" by (simp add: boardSquare_def)
  ultimately show "u = v" by (simp add: ab cd)
qed

lemma king_distinct:
  "distinct (map (\<lambda>(fd, rd). boardSquare (x + fd) (y + rd))
                        (filter (\<lambda>(fd, rd). onBoard (x + fd) (y + rd)) directions))"
proof -
  let ?sh = "\<lambda>(fd, rd). (x + fd, y + rd)"
  let ?cs = "filter (\<lambda>(a, b). onBoard a b) (map ?sh directions)"
  have eq: "map (\<lambda>(fd, rd). boardSquare (x + fd) (y + rd))
                        (filter (\<lambda>(fd, rd). onBoard (x + fd) (y + rd)) directions)
      = map (\<lambda>(a, b). boardSquare a b) ?cs"
    by (simp add: filter_map comp_def case_prod_unfold)
  have "distinct (map ?sh directions)" by (simp add: directions_def)
  then have "distinct ?cs" by (rule distinct_filter)
  moreover have "inj_on (\<lambda>(a, b). boardSquare a b) (set ?cs)"
    by (rule inj_on_subset [OF boardSquare_inj]) auto
  ultimately show ?thesis unfolding eq by (simp add: distinct_map)
qed


text \<open>
  Claim C2. For every constructed origin the King rule returns 3 squares from a corner, 5
  from an edge square that is not a corner and 8 from an interior square; the squares are
  pairwise distinct and none is the origin.
\<close>

theorem king_move_counts:
  assumes "Position_new f r = Inr p"
  shows "\<exists>x ms. fileIndex p = Some x \<and> King_calculateValidMoves p = Some (Inr ms) \<and>
     length ms =
       (if (x = 0 \<or> x = 7) \<and> (rank p = 1 \<or> rank p = 8) then 3
        else if x = 0 \<or> x = 7 \<or> rank p = 1 \<or> rank p = 8 then 5 else 8) \<and>
     distinct ms \<and> p \<notin> set ms \<and> (\<forall>m \<in> set ms. \<not> equals m p)"
proof -
  from assms obtain x where p: "fileIndex p = Some x" "onBoard x (rank p)"
    by (rule constructed_onBoard)
  let ?ms = "map (\<lambda>(fd, rd). boardSquare (x + fd) (rank p + rd))
                 (filter (\<lambda>(fd, rd). onBoard (x + fd) (rank p + rd)) directions)"
  have k: "King_calculateValidMoves p = Some (Inr ?ms)" by (rule king_moves [OF p(1)])
  have l: "length ?ms =
       (if (x = 0 \<or> x = 7) \<and> (rank p = 1 \<or> rank p = 8) then 3
        else if x = 0 \<or> x = 7 \<or> rank p = 1 \<or> rank p = 8 then 5 else 8)"
    using king_count [OF p(2)] by simp
  have d: "distinct ?ms" by (rule king_distinct)
  from all_directions_moves [OF assms, of "Some 1"] k
  have n: "\<forall>m \<in> set ?ms. m \<noteq> p \<and> \<not> equals m p"
    by (simp add: King_calculateValidMoves_def)
  then have "p \<notin> set ?ms" "\<forall>m \<in> set ?ms. \<not> equals m p" by blast+
  with p(1) k l d show ?thesis by blast
qed

theorem king_move_counts_witness:
  "Position_new ''D'' (Num 5) = Inr \<lparr>file' = ''D'', rank = 5\<rparr> \<and>
   (\<exists>ms. King_calculateValidMoves \<lparr>file' = ''D'', rank = 5\<rparr> = Some (Inr ms) \<and> length ms = 8 \<and>
         distinct ms \<and> \<lparr>file' = ''D'', rank = 5\<rparr> \<notin> set ms) \<and>
   Position_new ''A'' (Num 1) = Inr \<lparr>file' = ''A'', rank = 1\<rparr> \<and>
   (\<exists>ms. King_calculateValidMoves \<lparr>file' = ''A'', rank = 1\<rparr> = Some (Inr ms) \<and> length ms = 3) \<and>
   Position_new ''D'' (Num 1) = Inr \<lparr>file' = ''D'', rank = 1\<rparr> \<and>
   (\<exists>ms. King_calculateValidMoves \<lparr>file' = ''D'', rank = 1\<rparr> = Some (Inr ms) \<and> length ms = 5)"
proof -
  have d5: "Position_new ''D'' (Num 5) = Inr \<lparr>file' = ''D'', rank = 5\<rparr>" by code_simp
  have a1: "Position_new ''A'' (Num 1) = Inr \<lparr>file' = ''A'', rank = 1\<rparr>" by code_simp
  have d1: "Position_new ''D'' (Num 1) = Inr \<lparr>file' = ''D'', rank = 1\<rparr>" by code_simp
  have 1: "\<exists>ms. King_calculateValidMoves \<lparr>file' = ''D'', rank = 5\<rparr> = Some (Inr ms) \<and> length ms = 8 \<and>
         distinct ms \<and> \<lparr>file' = ''D'', rank = 5\<rparr> \<notin> set ms"
    using king_move_counts [OF d5] by (auto simp: fileIndex_def)
  have 2: "\<exists>ms. King_calculateValidMoves \<lparr>file' = ''A'', rank = 1\<rparr> = Some (Inr ms) \<and> length ms = 3"
    using king_move_counts [OF a1] by (auto simp: fileIndex_def)
  have 3: "\<exists>ms. King_calculateValidMoves \<lparr>file' = ''D'', rank = 1\<rparr> = Some (Inr ms) \<and> length ms = 5"
    using king_move_counts [OF d1] by (auto simp: fileIndex_def)
  from d5 a1 d1 1 2 3 show ?thesis by blast
qed

lemma queen_corners:
  "map (\<lambda>p. map_option (map_sum id length) (Queen_calculateValidMoves p))
     [\<lparr>file' = ''A'', rank = 1\<rparr>, \<lparr>file' = ''A'', rank = 8\<rparr>,
      \<lparr>file' = ''H'', rank = 1\<rparr>, \<lparr>file' = ''H'', rank = 8\<rparr>] =
   [Some (Inr 21), Some (Inr 21), Some (Inr 21), Some (Inr 21)]"
  by code_simp

lemma queen_centre:
  "map (\<lambda>p. map_option (map_sum id length) (Queen_calculateValidMoves p))
     [\<lparr>file' = ''D'', rank = 4\<rparr>, \<lparr>file' = ''D'', rank = 5\<rparr>,
      \<lparr>file' = ''E'', rank = 4\<rparr>, \<lparr>file' = ''E'', rank = 5\<rparr>] =
   [Some (Inr 27), Some (Inr 27), Some (Inr 27), Some (Inr 27)]"
  by code_simp

lemma queen_E4:
  "map_option (map_sum id (map toNotation)) (Queen_calculateValidMoves \<lparr>file' = ''E'', rank = 4\<rparr>) =
   Some (Inr [''D3'', ''C2'', ''B1'', ''D4'', ''C4'', ''B4'', ''A4'', ''D5'',
        ''C6'', ''B7'', ''A8'', ''E3'', ''E2'', ''E1'', ''E5'', ''E6'',
        ''E7'', ''E8'', ''F3'', ''G2'', ''H1'', ''F4'', ''G4'', ''H4'',
        ''F5'', ''G6'', ''H7''])"
  by code_simp

lemma notation_origins:
  "map fromNotation [''A1'', ''A8'', ''H1'', ''H8'', ''D4'', ''D5'', ''E4'', ''E5''] =
   map Inr [\<lparr>file' = ''A'', rank = 1\<rparr>, \<lparr>file' = ''A'', rank = 8\<rparr>,
      \<lparr>file' = ''H'', rank = 1\<rparr>, \<lparr>file' = ''H'', rank = 8\<rparr>,
      \<lparr>file' = ''D'', rank = 4\<rparr>, \<lparr>file' = ''D'', rank = 5\<rparr>,
      \<lparr>file' = ''E'', rank = 4\<rparr>, \<lparr>file' = ''E'', rank = 5\<rparr>]"
  by code_simp

text \<open>
  Claim C1. The Queen rule returns 21 squares from each of the corners A1, A8, H1, H8 and
  27 from each of D4, D5, E4, E5; from E4 they are the 27 squares listed.
\<close>

theorem queen_move_counts:
  "map fromNotation [''A1'', ''A8'', ''H1'', ''H8'', ''D4'', ''D5'', ''E4'', ''E5''] =
   map Inr [\<lparr>file' = ''A'', rank = 1\<rparr>, \<lparr>file' = ''A'', rank = 8\<rparr>,
      \<lparr>file' = ''H'', rank = 1\<rparr>, \<lparr>file' = ''H'', rank = 8\<rparr>,
      \<lparr>file' = ''D'', rank = 4\<rparr>, \<lparr>file' = ''D'', rank = 5\<rparr>,
      \<lparr>file' = ''E'', rank = 4\<rparr>, \<lparr>file' = ''E'', rank = 5\<rparr>] \<and>
   map (\<lambda>p. map_option (map_sum id length) (Queen_calculateValidMoves p))
     [\<lparr>file' = ''A'', rank = 1\<rparr>, \<lparr>file' = ''A'', rank = 8\<rparr>,
      \<lparr>file' = ''H'', rank = 1\<rparr>, \<lparr>file' = ''H'', rank = 8\<rparr>] =
   [Some (Inr 21), Some (Inr 21), Some (Inr 21), Some (Inr 21)] \<and>
   map (\<lambda>p. map_option (map_sum id length) (Queen_calculateValidMoves p))
     [\<lparr>file' = ''D'', rank = 4\<rparr>, \<lparr>file' = ''D'', rank = 5\<rparr>,
      \<lparr>file' = ''E'', rank = 4\<rparr>, \<lparr>file' = ''E'', rank = 5\<rparr>] =
   [Some (Inr 27), Some (Inr 27), Some (Inr 27), Some (Inr 27)] \<and>
   map_option (map_sum id (\<lambda>ms. set (map toNotation ms)))
     (Queen_calculateValidMoves \<lparr>file' = ''E'', rank = 4\<rparr>) =
   Some (Inr {''A4'', ''B4'', ''C4'', ''D4'', ''F4'', ''G4'', ''H4'',
              ''E1'', ''E2'', ''E3'', ''E5'', ''E6'', ''E7'', ''E8'',
              ''A8'', ''B7'', ''C6'', ''D5'', ''F3'', ''G2'', ''H1'',
              ''B1'', ''C2'', ''D3'', ''F5'', ''G6'', ''H7''})"
proof -
  have "map_option (map_sum id (\<lambda>ms. set (map toNotation ms)))
          (Queen_calculateValidMoves \<lparr>file' = ''E'', rank = 4\<rparr>) =
        map_option (map_sum id set)
          (map_option (map_sum id (map toNotation)) (Queen_calculateValidMoves \<lparr>file' = ''E'', rank = 4\<rparr>))"
    by (simp add: option.map_comp sum.map_comp comp_def id_def)
  also have "\<dots> = Some (Inr {''A4'', ''B4'', ''C4'', ''D4'', ''F4'', ''G4'', ''H4'',
              ''E1'', ''E2'', ''E3'', ''E5'', ''E6'', ''E7'', ''E8'',
              ''A8'', ''B7'', ''C6'', ''D5'', ''F3'', ''G2'', ''H1'',
              ''B1'', ''C2'', ''D3'', ''F5'', ''G6'', ''H7''})"
    unfolding queen_E4 by (simp add: insert_commute)
  finally have "map_option (map_sum id (\<lambda>ms. set (map toNotation ms)))
     (Queen_calculateValidMoves \<lparr>file' = ''E'', rank = 4\<rparr>) =
   Some (Inr {''A4'', ''B4'', ''C4'', ''D4'', ''F4'', ''G4'', ''H4'',
              ''E1'', ''E2'', ''E3'', ''E5'', ''E6'', ''E7'', ''E8'',
              ''A8'', ''B7'', ''C6'', ''D5'', ''F3'', ''G2'', ''H1'',
              ''B1'', ''C2'', ''D3'', ''F5'', ''G6'', ''H7''})" .
  with notation_origins queen_corners queen_centre show ?thesis by blast
qed

section \<open>Properties of sorting and of the service\<close>

lemma localeCompare_sign:
  "(localeCompare a b < 0) = (a < b) \<and> (localeCompare a b = 0) = (a = b) \<and> (0 < localeCompare a b) = (b < a)"
  by (induction a b rule: localeCompare.induct) (auto simp: less_char_def)

lemma equals_iff: "equals a b = (a = b)"
  by (auto simp: equals_def)

lemma comparePositions_le:
  "(comparePositions a b \<le> 0) = (file' a < file' b \<or> (file' a = file' b \<and> rank a \<le> rank b))"
  using localeCompare_sign [of "file' a" "file' b"]
  by (auto simp: comparePositions_def Let_def)

lemma set_insertPosition: "set (insertPosition a xs) = insert a (set xs)"
  by (induction xs) auto

lemma distinct_insertPosition: "distinct (insertPosition a xs) = (a \<notin> set xs \<and> distinct xs)"
  by (induction xs) (auto simp: set_insertPosition)

lemma sorted_insertPosition:
  "sorted_wrt (\<lambda>a b. comparePositions a b \<le> 0) xs \<Longrightarrow>
   sorted_wrt (\<lambda>a b. comparePositions a b \<le> 0) (insertPosition a xs)"
proof (induction xs)
  case Nil
  then show ?case by simp
next
  case (Cons b bs)
  show ?case
  proof (cases "comparePositions a b \<le> 0")
    case True
    with Cons.prems show ?thesis by (fastforce simp: comparePositions_le)
  next
    case False
    then have "comparePositions b a \<le> 0" by (auto simp: comparePositions_le)
    with False Cons show ?thesis by (auto simp: set_insertPosition)
  qed
qed

lemma set_sortPositions: "set (sortPositions xs) = set xs"
  unfolding sortPositions_def by (induction xs) (auto simp: set_insertPosition)

lemma distinct_sortPositions: "distinct (sortPositions xs) = distinct xs"
  using set_sortPositions unfolding sortPositions_def
  by (induction xs) (auto simp: distinct_insertPosition)

lemma sorted_sortPositions: "sorted_wrt (\<lambda>a b. comparePositions a b \<le> 0) (sortPositions xs)"
  unfolding sortPositions_def by (induction xs) (auto simp: sorted_insertPosition)

lemma strictly_sorted:
  "distinct xs \<Longrightarrow> sorted_wrt (\<lambda>a b. comparePositions a b \<le> 0) xs \<Longrightarrow>
   sorted_wrt (\<lambda>a b. file' a < file' b \<or> (file' a = file' b \<and> rank a < rank b)) xs"
proof (induction xs)
  case Nil
  then show ?case by simp
next
  case (Cons x xs)
  have "file' x < file' y \<or> (file' x = file' y \<and> rank x < rank y)" if "y \<in> set xs" for y
  proof -
    from Cons.prems that have "comparePositions x y \<le> 0" and "x \<noteq> y" by auto
    then show ?thesis by (cases "rank x = rank y") (auto simp: comparePositions_le)
  qed
  with Cons show ?case by simp
qed

lemma findIndex_from_takeWhile:
  "findIndex_from P xs i =
     (if \<exists>x \<in> set xs. P x then i + int (length (takeWhile (\<lambda>x. \<not> P x) xs)) else -1)"
  by (induction xs arbitrary: i) auto

lemma findIndex_first:
  assumes "P x"
  shows "(findIndex P (pre @ x # xs) = int (length pre)) = (\<forall>y \<in> set pre. \<not> P y)"
proof (cases "\<forall>y \<in> set pre. \<not> P y")
  case True
  then have "takeWhile (\<lambda>x. \<not> P x) (pre @ x # xs) = pre"
    using assms by (simp add: takeWhile_append2)
  with True assms show ?thesis by (auto simp: findIndex_def findIndex_from_takeWhile)
next
  case False
  then have t: "takeWhile (\<lambda>x. \<not> P x) (pre @ x # xs) = takeWhile (\<lambda>x. \<not> P x) pre"
    by (auto simp: takeWhile_append1)
  have "length (takeWhile (\<lambda>x. \<not> P x) pre) \<noteq> length pre"
  proof
    assume "length (takeWhile (\<lambda>x. \<not> P x) pre) = length pre"
    then have "takeWhile (\<lambda>x. \<not> P x) pre = pre"
      by (metis takeWhile_eq_take take_all order_refl)
    with False show False by (simp add: takeWhile_eq_all_conv)
  qed
  with False assms t show ?thesis by (auto simp: findIndex_def findIndex_from_takeWhile)
qed

lemma unique_from:
  "distinct (map fst (filter (\<lambda>(q, i). findIndex (\<lambda>p. equals p q) (pre @ xs) = i)
                       (zip xs (map int [length pre ..< length pre + length xs])))) \<and>
   set (map fst (filter (\<lambda>(q, i). findIndex (\<lambda>p. equals p q) (pre @ xs) = i)
                       (zip xs (map int [length pre ..< length pre + length xs])))) = set xs - set pre"
proof (induction xs arbitrary: pre)
  case Nil
  show ?case by simp
next
  case (Cons x xs)
  have u: "[length pre ..< length pre + length (x # xs)] =
           length pre # [length (pre @ [x]) ..< length (pre @ [x]) + length xs]"
    by (simp add: upt_conv_Cons del: upt_Suc)
  have h: "(findIndex (\<lambda>p. equals p x) (pre @ x # xs) = int (length pre)) = (x \<notin> set pre)"
    using findIndex_first [of "\<lambda>p. equals p x" x pre xs] by (auto simp: equals_iff)
  from Cons [of "pre @ [x]"] show ?case
    unfolding u by (auto simp: h simp del: upt_Suc)
qed

lemma uniquePositions_distinct: "distinct (uniquePositions xs)"
  using unique_from [of "[]" xs] by (simp add: uniquePositions_def)

lemma uniquePositions_set: "set (uniquePositions xs) = set xs"
  using unique_from [of "[]" xs] by (simp add: uniquePositions_def)

lemma sortAndDeduplicate_props:
  "set (sortAndDeduplicate xs) = set xs \<and> distinct (sortAndDeduplicate xs) \<and>
   sorted_wrt (\<lambda>a b. file' a < file' b \<or> (file' a = file' b \<and> rank a < rank b)) (sortAndDeduplicate xs)"
  by (simp add: sortAndDeduplicate_def set_sortPositions uniquePositions_set distinct_sortPositions
      uniquePositions_distinct strictly_sorted sorted_sortPositions)


text \<open>
  Claim C3. For every supported piece type and every constructed origin the service
  returns an array that holds exactly the squares the rule produced, each once (no two
  entries are equal under \<open>equals\<close>), in ascending order of file and, within a file, of
  rank. The result is a function of the two inputs, so equal inputs give the same array.
\<close>

theorem query_sorted_deduplicated:
  assumes "pieceType \<in> set getSupportedPieceTypes" and "Position_new f r = Inr p"
  shows "\<exists>s raw ms. createStrategy pieceType = Inr s \<and>
           strategy_calculateValidMoves s p = Some (Inr raw) \<and>
           calculateValidMoves pieceType p = Some (Inr ms) \<and>
           set ms = set raw \<and> distinct ms \<and>
           (\<forall>i < length ms. \<forall>j < length ms. equals (ms ! i) (ms ! j) \<longrightarrow> i = j) \<and>
           sorted_wrt (\<lambda>a b. file' a < file' b \<or> (file' a = file' b \<and> rank a < rank b)) ms \<and>
           (\<forall>m \<in> set ms. file' m \<in> set [''A'', ''B'', ''C'', ''D'', ''E'', ''F'', ''G'', ''H''] \<and>
               1 \<le> rank m \<and> rank m \<le> 8)"
proof -
  from assms(1) have "\<exists>s. createStrategy pieceType = Inr s"
    by (auto simp: getSupportedPieceTypes_def strategyMap_def createStrategy_cases)
  then obtain s where s: "createStrategy pieceType = Inr s" by blast
  from strategy_moves_on_board [OF assms(2), of s]
  obtain raw where raw: "strategy_calculateValidMoves s p = Some (Inr raw)"
    and el: "\<forall>m \<in> set raw. file' m \<in> set [''A'', ''B'', ''C'', ''D'', ''E'', ''F'', ''G'', ''H''] \<and>
               1 \<le> rank m \<and> rank m \<le> 8"
    by blast
  let ?ms = "sortAndDeduplicate raw"
  have c: "calculateValidMoves pieceType p = Some (Inr ?ms)"
    by (simp add: calculateValidMoves_def s raw)
  note pr = sortAndDeduplicate_props [of raw]
  from pr have d: "distinct ?ms" by blast
  have e: "\<forall>i < length ?ms. \<forall>j < length ?ms. equals (?ms ! i) (?ms ! j) \<longrightarrow> i = j"
    using d by (auto simp: equals_iff nth_eq_iff_index_eq)
  from pr el have "\<forall>m \<in> set ?ms. file' m \<in> set [''A'', ''B'', ''C'', ''D'', ''E'', ''F'', ''G'', ''H''] \<and>
               1 \<le> rank m \<and> rank m \<le> 8"
    by blast
  with s raw c pr e show ?thesis by blast
qed

theorem query_sorted_deduplicated_witness:
  "QUEEN \<in> set getSupportedPieceTypes \<and>
   Position_new ''E'' (Num 4) = Inr \<lparr>file' = ''E'', rank = 4\<rparr> \<and>
   (\<exists>ms. calculateValidMoves QUEEN \<lparr>file' = ''E'', rank = 4\<rparr> = Some (Inr ms) \<and> distinct ms \<and>
      sorted_wrt (\<lambda>a b. file' a < file' b \<or> (file' a = file' b \<and> rank a < rank b)) ms) \<and>
   map_option (map_sum id (map toNotation)) (calculateValidMoves QUEEN \<lparr>file' = ''E'', rank = 4\<rparr>) =
     Some (Inr [''A4'', ''A8'', ''B1'', ''B4'', ''B7'', ''C2'', ''C4'', ''C6'',
        ''D3'', ''D4'', ''D5'', ''E1'', ''E2'', ''E3'', ''E5'', ''E6'',
        ''E7'', ''E8'', ''F3'', ''F4'', ''F5'', ''G2'', ''G4'', ''G6'',
        ''H1'', ''H4'', ''H7''])"
proof -
  have q: "QUEEN \<in> set getSupportedPieceTypes" by (simp add: getSupportedPieceTypes_def strategyMap_def)
  have h: "Position_new ''E'' (Num 4) = Inr \<lparr>file' = ''E'', rank = 4\<rparr>" by code_simp
  have v: "map_option (map_sum id (map toNotation)) (calculateValidMoves QUEEN \<lparr>file' = ''E'', rank = 4\<rparr>) =
     Some (Inr [''A4'', ''A8'', ''B1'', ''B4'', ''B7'', ''C2'', ''C4'', ''C6'',
        ''D3'', ''D4'', ''D5'', ''E1'', ''E2'', ''E3'', ''E5'', ''E6'',
        ''E7'', ''E8'', ''F3'', ''F4'', ''F5'', ''G2'', ''G4'', ''G6'',
        ''H1'', ''H4'', ''H7''])" by code_simp
  from query_sorted_deduplicated [OF q h]
  have "\<exists>ms. calculateValidMoves QUEEN \<lparr>file' = ''E'', rank = 4\<rparr> = Some (Inr ms) \<and> distinct ms \<and>
      sorted_wrt (\<lambda>a b. file' a < file' b \<or> (file' a = file' b \<and> rank a < rank b)) ms"
    by blast
  with q h v show ?thesis by blast
qed

end
